theory Spec2Isabelle
  imports Main "HOL-Library.Sublist"
begin

section \<open>CrochetScript front end: lexical, syntactic and semantic analysis\<close>

text \<open>
  The three stages of the compiler are embedded as they are written in
  \<^verbatim>\<open>lexical.py\<close>, \<^verbatim>\<open>sintactic.py\<close> and \<^verbatim>\<open>Code/semantic.py\<close>.
  Python strings are modelled as HOL strings, Python exceptions as values of
  the type \<open>error\<close>, and a function that may raise returns \<open>error + 'a\<close>
  with \<open>Inl\<close> for the exception.
\<close>

subsection \<open>Tokens and exceptions\<close>

text \<open>
  \<^verbatim>\<open>class Token\<close>: the attribute \<^verbatim>\<open>type_\<close> and the attribute \<^verbatim>\<open>value\<close>, both strings.
\<close>

datatype token = Token (type_of: string) (value_of: string)

text \<open>
  The exceptions the three stages can raise: \<^verbatim>\<open>RuntimeError\<close> (raised by the lexer),
  \<^verbatim>\<open>SyntaxError\<close> (raised by \<^verbatim>\<open>SintacticAnalyzer.error\<close>), \<^verbatim>\<open>AttributeError\<close> (an
  attribute read on \<^verbatim>\<open>None\<close>) and \<^verbatim>\<open>IndexError\<close> (a list index out of range).
  Each carries its message.
\<close>

datatype error =
    RuntimeError string
  | SyntaxError string
  | AttributeError string
  | IndexError string

text \<open>\<^verbatim>\<open>Token.__repr__\<close>: \<^verbatim>\<open>f"Token({self.type_}, {self.value})"\<close>.\<close>

definition repr_token :: "token \<Rightarrow> string" where
  "repr_token t = ''Token('' @ type_of t @ '', '' @ value_of t @ '')''"

text \<open>The text an f-string gives for a value that is a token or \<^verbatim>\<open>None\<close>.\<close>

fun format_current :: "token option \<Rightarrow> string" where
  "format_current None = ''None''"
| "format_current (Some t) = repr_token t"

subsection \<open>The lexical analyzer\<close>

text \<open>
  Each entry of \<^verbatim>\<open>token_specification\<close> is a group name and a pattern. A pattern
  is modelled by the function that gives the text it matches at the start of
  the remaining input, if any. An alternation of literals matches the first
  alternative (in the order written) that is a prefix of the input.
\<close>

type_synonym pattern = "string \<Rightarrow> string option"

fun alternation :: "string list \<Rightarrow> pattern" where
  "alternation [] s = None"
| "alternation (p # ps) s = (if prefix p s then Some p else alternation ps s)"

text \<open>The pattern \<^verbatim>\<open>[ \t]+\<close>: the longest non-empty run of spaces and tabs.\<close>

definition blank :: "char \<Rightarrow> bool" where
  "blank c \<longleftrightarrow> c = CHR '' '' \<or> c = CHR 0x09"

definition skip_pattern :: pattern where
  "skip_pattern s = (if takeWhile blank s = [] then None else Some (takeWhile blank s))"

text \<open>The pattern \<^verbatim>\<open>.\<close>: any one character except a newline.\<close>

fun dot_pattern :: pattern where
  "dot_pattern [] = None"
| "dot_pattern (c # s) = (if c = CHR 0x0A then None else Some [c])"

definition token_specification :: "(string \<times> pattern) list" where
  "token_specification =
    [(''FIGURE'', alternation [''addCircle'', ''addSquare'', ''addTriangle'', ''addHeart'']),
     (''COLOR'', alternation [''RED'', ''PINK'', ''BLUE'', ''BLACK'']),
     (''KEYWORDS'', alternation [''START'', ''END'']),
     (''SIZE'', alternation [''1'', ''2'', ''3'', ''4'', ''5'']),
     (''SPECIALCHAR'', alternation [''('', '')'']),
     (''SKIP'', skip_pattern),
     (''MISMATCH'', dot_pattern)]"

text \<open>
  \<^verbatim>\<open>tok_regex\<close> joins the named groups with \<^verbatim>\<open>|\<close>: at a position the groups are
  tried in order and the first that matches wins. The result is the pair of
  \<^verbatim>\<open>mo.lastgroup\<close> and \<^verbatim>\<open>mo.group()\<close>.
\<close>

fun first_group :: "(string \<times> pattern) list \<Rightarrow> string \<Rightarrow> (string \<times> string) option" where
  "first_group [] s = None"
| "first_group ((kind, p) # rest) s =
     (case p s of Some v \<Rightarrow> Some (kind, v) | None \<Rightarrow> first_group rest s)"

definition tok_regex :: "string \<Rightarrow> (string \<times> string) option" where
  "tok_regex s = first_group token_specification s"

text \<open>
  The loop \<^verbatim>\<open>for mo in re.finditer(tok_regex, code)\<close>. \<^verbatim>\<open>finditer\<close> scans from
  left to right; where the expression matches, the match is handed to the
  loop body and the scan goes on after it; where nothing matches (only at a
  newline, which \<^verbatim>\<open>.\<close> excludes) the scan moves one character on. The
  argument \<open>tokens\<close> is the list built so far.
\<close>

function lex_loop :: "string \<Rightarrow> token list \<Rightarrow> error + token list" where
  "lex_loop code tokens =
     (if code = [] then Inr tokens
      else case tok_regex code of
             None \<Rightarrow> lex_loop (tl code) tokens
           | Some (kind, v) \<Rightarrow>
               if kind = ''MISMATCH'' then Inl (RuntimeError (v @ '' unexpected''))
               else if kind = ''SKIP'' then lex_loop (drop (length v) code) tokens
               else lex_loop (drop (length v) code) (tokens @ [Token kind v]))"
  by pat_completeness auto
termination
proof (relation "measure (\<lambda>(code, tokens). length code)")
  have alt: "\<And>ps s v. alternation ps s = Some v \<Longrightarrow> [] \<notin> set ps \<Longrightarrow> v \<noteq> []"
  proof -
    fix ps :: "string list" and s v
    show "alternation ps s = Some v \<Longrightarrow> [] \<notin> set ps \<Longrightarrow> v \<noteq> []"
      by (induction ps) (auto split: if_splits)
  qed
  have dot: "\<And>s v. dot_pattern s = Some v \<Longrightarrow> v \<noteq> []"
  proof -
    fix s v show "dot_pattern s = Some v \<Longrightarrow> v \<noteq> []"
      by (cases s) (auto split: if_splits)
  qed
  have nonempty: "\<And>s kind v. tok_regex s = Some (kind, v) \<Longrightarrow> v \<noteq> []"
    unfolding tok_regex_def token_specification_def
    by (auto simp: skip_pattern_def split: option.splits if_splits dest!: alt dot)
  show "wf (measure (\<lambda>(code, tokens). length code))" by simp
  show "\<And>code tokens. code \<noteq> [] \<Longrightarrow> tok_regex code = None \<Longrightarrow>
          ((tl code, tokens), (code, tokens)) \<in> measure (\<lambda>(code, tokens). length code)"
    by (simp add: Suc_pred)
  show "\<And>code tokens x2 x y. code \<noteq> [] \<Longrightarrow> tok_regex code = Some x2 \<Longrightarrow>
          (x, y) = x2 \<Longrightarrow> x \<noteq> ''MISMATCH'' \<Longrightarrow> x = ''SKIP'' \<Longrightarrow>
          ((drop (length y) code, tokens), (code, tokens)) \<in> measure (\<lambda>(code, tokens). length code)"
    using nonempty by fastforce
  show "\<And>code tokens x2 x y. code \<noteq> [] \<Longrightarrow> tok_regex code = Some x2 \<Longrightarrow>
          (x, y) = x2 \<Longrightarrow> x \<noteq> ''MISMATCH'' \<Longrightarrow> x \<noteq> ''SKIP'' \<Longrightarrow>
          ((drop (length y) code, tokens @ [Token x y]), (code, tokens))
            \<in> measure (\<lambda>(code, tokens). length code)"
    using nonempty by fastforce
qed

text \<open>\<^verbatim>\<open>LexicalAnalyzer.lex\<close>: the loop started on the whole text with no tokens.\<close>

definition lex :: "string \<Rightarrow> error + token list" where
  "lex code = lex_loop code []"

subsection \<open>Python list indexing\<close>

text \<open>
  \<^verbatim>\<open>xs[i]\<close> and \<^verbatim>\<open>xs[i] = v\<close>: a negative index counts from the end, and an
  index out of range raises \<^verbatim>\<open>IndexError\<close>.
\<close>

definition py_index :: "'a list \<Rightarrow> int \<Rightarrow> error + 'a" where
  "py_index xs i =
     (if 0 \<le> i \<and> i < int (length xs) then Inr (xs ! nat i)
      else if i < 0 \<and> - int (length xs) \<le> i then Inr (xs ! nat (int (length xs) + i))
      else Inl (IndexError ''list index out of range''))"

definition py_store :: "'a list \<Rightarrow> int \<Rightarrow> 'a \<Rightarrow> error + 'a list" where
  "py_store xs i v =
     (if 0 \<le> i \<and> i < int (length xs) then Inr (xs[nat i := v])
      else if i < 0 \<and> - int (length xs) \<le> i then Inr (xs[nat (int (length xs) + i) := v])
      else Inl (IndexError ''list assignment index out of range''))"

subsection \<open>The syntactic analyzer\<close>

text \<open>
  The state of a \<^verbatim>\<open>SintacticAnalyzer\<close>: its three attributes, and the lines it
  has printed so far.
\<close>

record parser =
  tokens :: "token list"
  current_token :: "token option"
  pos :: int
  printed :: "string list"

definition advance :: "parser \<Rightarrow> error + parser" where
  "advance p =
     (let p1 = p\<lparr>pos := pos p + 1\<rparr> in
      if pos p1 < int (length (tokens p1)) then
        (case py_index (tokens p1) (pos p1) of
           Inl e \<Rightarrow> Inl e
         | Inr t \<Rightarrow> Inr (p1\<lparr>current_token := Some t\<rparr>))
      else Inr (p1\<lparr>current_token := None\<rparr>))"

text \<open>\<^verbatim>\<open>__init__\<close>: no current token, position \<open>-1\<close>, then one \<^verbatim>\<open>advance\<close>.\<close>

definition SintacticAnalyzer :: "token list \<Rightarrow> error + parser" where
  "SintacticAnalyzer ts =
     advance \<lparr>tokens = ts, current_token = None, pos = - 1, printed = []\<rparr>"

text \<open>\<^verbatim>\<open>error\<close>: the \<^verbatim>\<open>SyntaxError\<close> that is raised.\<close>

definition error :: "parser \<Rightarrow> string \<Rightarrow> error" where
  "error p expected =
     SyntaxError (''Syntax error: expected '' @ expected @ '', found ''
                  @ format_current (current_token p))"

text \<open>
  The conditions \<^verbatim>\<open>self.current_token and self.current_token.type_ == k\<close> and
  \<^verbatim>\<open>... and self.current_token.value == v\<close>. A token object is always true, so the
  first conjunct is false exactly for \<^verbatim>\<open>None\<close>, and the rest is then not evaluated.
\<close>

definition is_kind :: "token option \<Rightarrow> string \<Rightarrow> bool" where
  "is_kind cur k = (case cur of None \<Rightarrow> False | Some t \<Rightarrow> type_of t = k)"

definition is_kind_value :: "token option \<Rightarrow> string \<Rightarrow> string \<Rightarrow> bool" where
  "is_kind_value cur k v =
     (case cur of None \<Rightarrow> False | Some t \<Rightarrow> type_of t = k \<and> value_of t = v)"

text \<open>
  \<^verbatim>\<open>start\<close> reads \<^verbatim>\<open>self.current_token.type_\<close> with no test for \<^verbatim>\<open>None\<close>: on
  \<^verbatim>\<open>None\<close> the attribute read raises \<^verbatim>\<open>AttributeError\<close>.
\<close>

definition none_has_no_attribute :: "string \<Rightarrow> error" where
  "none_has_no_attribute a =
     AttributeError ([CHR 0x27] @ ''NoneType'' @ [CHR 0x27] @ '' object has no attribute ''
                     @ [CHR 0x27] @ a @ [CHR 0x27])"

definition start :: "parser \<Rightarrow> error + parser" where
  "start p =
     (case current_token p of
        None \<Rightarrow> Inl (none_has_no_attribute ''type_'')
      | Some t \<Rightarrow>
          if type_of t = ''KEYWORDS'' \<and> value_of t = ''START'' then advance p
          else Inl (error p ''START''))"

definition end' :: "parser \<Rightarrow> error + parser" where
  "end' p =
     (if is_kind_value (current_token p) ''KEYWORDS'' ''END'' then
        (case advance p of
           Inl e \<Rightarrow> Inl e
         | Inr p1 \<Rightarrow>
             if current_token p1 \<noteq> None
             then Inl (error p1 ''No extra tokens expected after END'')
             else Inr p1)
      else Inl (error p ''END''))"

definition figure :: "parser \<Rightarrow> error + parser" where
  "figure p =
     (if is_kind (current_token p) ''FIGURE'' then
        (let figure_value = value_of (the (current_token p)) in
         case advance p of Inl e \<Rightarrow> Inl e | Inr p1 \<Rightarrow>
         if is_kind_value (current_token p1) ''SPECIALCHAR'' ''('' then
           (let sc_value1 = value_of (the (current_token p1)) in
            case advance p1 of Inl e \<Rightarrow> Inl e | Inr p2 \<Rightarrow>
            if is_kind (current_token p2) ''SIZE'' then
              (let size_value = value_of (the (current_token p2)) in
               case advance p2 of Inl e \<Rightarrow> Inl e | Inr p3 \<Rightarrow>
               if is_kind (current_token p3) ''COLOR'' then
                 (let color_value = value_of (the (current_token p3)) in
                  case advance p3 of Inl e \<Rightarrow> Inl e | Inr p4 \<Rightarrow>
                  if is_kind_value (current_token p4) ''SPECIALCHAR'' '')'' then
                    (let sc_value2 = value_of (the (current_token p4)) in
                     advance (p4\<lparr>printed := printed p4 @
                       [''Figure: '' @ figure_value @ sc_value1 @ size_value @ '' ''
                        @ color_value @ sc_value2]\<rparr>))
                  else Inl (error p4 '')''))
               else Inl (error p3 ''COLOR''))
            else Inl (error p2 ''SIZE''))
         else Inl (error p1 ''( after FIGURE''))
      else Inl (error p ''FIGURE''))"

text \<open>
  \<^verbatim>\<open>figure_sequence\<close>: the loop \<^verbatim>\<open>while self.current_token and
  self.current_token.type_ == "FIGURE": self.figure()\<close>. Every successful
  \<^verbatim>\<open>figure\<close> moves the position five tokens on without leaving the list,
  which is why the loop ends.
\<close>

function figure_sequence :: "parser \<Rightarrow> error + parser" where
  "figure_sequence p =
     (if is_kind (current_token p) ''FIGURE'' then
        (case figure p of Inl e \<Rightarrow> Inl e | Inr p1 \<Rightarrow> figure_sequence p1)
      else Inr p)"
  by pat_completeness auto
termination
proof (relation "measure (\<lambda>p. nat (int (length (tokens p)) - pos p))")
  show "wf (measure (\<lambda>p. nat (int (length (tokens p)) - pos p)))" by simp
  have adv: "\<And>p q. advance p = Inr q \<Longrightarrow>
      tokens q = tokens p \<and> pos q = pos p + 1 \<and>
      (current_token q \<noteq> None \<longrightarrow> pos q < int (length (tokens q)))"
    by (auto simp: advance_def Let_def split: if_splits sum.splits)
  show "\<And>p x2. is_kind (current_token p) ''FIGURE'' \<Longrightarrow> figure p = Inr x2 \<Longrightarrow>
          (x2, p) \<in> measure (\<lambda>p. nat (int (length (tokens p)) - pos p))"
  proof -
    fix p q
    assume "figure p = Inr q"
    then obtain p1 p2 p3 p4 where
      a: "advance p = Inr p1" "advance p1 = Inr p2" "advance p2 = Inr p3"
         "advance p3 = Inr p4" and
      c: "current_token p4 \<noteq> None" and
      l: "advance (p4\<lparr>printed := printed p4 @
             [''Figure: '' @ value_of (the (current_token p)) @ value_of (the (current_token p1))
              @ value_of (the (current_token p2)) @ '' '' @ value_of (the (current_token p3))
              @ value_of (the (current_token p4))]\<rparr>) = Inr q"
      by (auto simp: figure_def Let_def is_kind_value_def split: if_splits sum.splits option.splits)
    from a c l have "tokens q = tokens p" "pos q = pos p + 5" "pos p + 4 < int (length (tokens p))"
      by (auto dest!: adv)
    then show "(q, p) \<in> measure (\<lambda>p. nat (int (length (tokens p)) - pos p))"
      by simp
  qed
qed

text \<open>\<^verbatim>\<open>parse\<close>: \<^verbatim>\<open>start\<close>, \<^verbatim>\<open>figure_sequence\<close>, \<^verbatim>\<open>end\<close>, in this order.\<close>

definition parse :: "parser \<Rightarrow> error + parser" where
  "parse p =
     (case start p of Inl e \<Rightarrow> Inl e | Inr p1 \<Rightarrow>
      (case figure_sequence p1 of Inl e \<Rightarrow> Inl e | Inr p2 \<Rightarrow> end' p2))"

text \<open>
  The validator as the compiler uses it:
  \<^verbatim>\<open>SintacticAnalyzer(tokens_).parse()\<close>.
\<close>

definition validate :: "token list \<Rightarrow> error + parser" where
  "validate ts = (case SintacticAnalyzer ts of Inl e \<Rightarrow> Inl e | Inr p \<Rightarrow> parse p)"

subsection \<open>The semantic analyzer\<close>

text \<open>
  An element of \<^verbatim>\<open>self.figures\<close> is a tuple \<^verbatim>\<open>(figure, size, color)\<close> whose second
  and third components may be \<^verbatim>\<open>None\<close>.
\<close>

type_synonym figure_tuple = "string \<times> string option \<times> string option"

text \<open>
  The branch of the loop body that a token takes: the three branches that
  change the list, the two inner tests that fail and leave it as it is, and
  the final \<^verbatim>\<open>else\<close>.
\<close>

datatype branch =
    FigureAppended
  | SizeSet
  | SizeIgnored
  | ColorSet
  | ColorIgnored
  | TokenSkipped

text \<open>
  One execution of the loop body on the token \<open>t\<close>, from the list \<open>figures\<close>:
  the new list and the branch taken. \<^verbatim>\<open>self.figures and ...\<close> is false for the
  empty list without evaluating \<^verbatim>\<open>self.figures[-1]\<close>.
\<close>

definition analyze_step :: "figure_tuple list \<Rightarrow> token \<Rightarrow> error + (figure_tuple list \<times> branch)" where
  "analyze_step figures t =
     (if type_of t = ''FIGURE'' then
        Inr (figures @ [(value_of t, None, None)], FigureAppended)
      else if type_of t = ''SIZE'' then
        (if figures = [] then Inr (figures, SizeIgnored)
         else case py_index figures (- 1) of Inl e \<Rightarrow> Inl e | Inr f \<Rightarrow>
           if fst (snd f) = None then
             (case py_store figures (- 1) (fst f, Some (value_of t), None) of
                Inl e \<Rightarrow> Inl e
              | Inr figures' \<Rightarrow> Inr (figures', SizeSet))
           else Inr (figures, SizeIgnored))
      else if type_of t = ''COLOR'' then
        (if figures = [] then Inr (figures, ColorIgnored)
         else case py_index figures (- 1) of Inl e \<Rightarrow> Inl e | Inr f \<Rightarrow>
           if snd (snd f) = None then
             (case py_store figures (- 1) (fst f, fst (snd f), Some (value_of t)) of
                Inl e \<Rightarrow> Inl e
              | Inr figures' \<Rightarrow> Inr (figures', ColorSet))
           else Inr (figures, ColorIgnored))
      else Inr (figures, TokenSkipped))"

text \<open>
  The loop \<^verbatim>\<open>while i < token_count\<close>; every branch ends with \<^verbatim>\<open>i += 1\<close>. The
  state is the list of figures and the branches taken so far.
\<close>

function analyze_loop ::
  "token list \<Rightarrow> nat \<Rightarrow> figure_tuple list \<times> branch list \<Rightarrow> error + (figure_tuple list \<times> branch list)" where
  "analyze_loop ts i st =
     (if i < length ts then
        (case py_index ts (int i) of Inl e \<Rightarrow> Inl e | Inr t \<Rightarrow>
         (case analyze_step (fst st) t of
            Inl e \<Rightarrow> Inl e
          | Inr (figures', b) \<Rightarrow> analyze_loop ts (i + 1) (figures', snd st @ [b])))
      else Inr st)"
  by pat_completeness auto
termination
  by (relation "measure (\<lambda>(ts, i, st). length ts - i)") auto

text \<open>
  \<^verbatim>\<open>SemanticAnalyzer(tokens_input).analyze()\<close>: the loop from \<open>i = 0\<close> with
  \<^verbatim>\<open>self.figures = []\<close>, with and without the record of the branches.
\<close>

definition analyze_traced :: "token list \<Rightarrow> error + (figure_tuple list \<times> branch list)" where
  "analyze_traced ts = analyze_loop ts 0 ([], [])"

definition analyze :: "token list \<Rightarrow> error + figure_tuple list" where
  "analyze ts = (case analyze_traced ts of Inl e \<Rightarrow> Inl e | Inr st \<Rightarrow> Inr (fst st))"

subsection \<open>The compiler\<close>

text \<open>
  \<^verbatim>\<open>Compiler.compile\<close> up to the list of figures (the export of the pattern as a
  document is outside this development): the stages that were started, in
  order, and the exception or the figures.
\<close>

datatype stage = Lexical | Syntactic | Semantic

definition compile :: "string \<Rightarrow> stage list \<times> (error + figure_tuple list)" where
  "compile code =
     (case lex code of
        Inl e \<Rightarrow> ([Lexical], Inl e)
      | Inr tokens_ \<Rightarrow>
          (case SintacticAnalyzer tokens_ of
             Inl e \<Rightarrow> ([Lexical, Syntactic], Inl e)
           | Inr sintactic_analyzer \<Rightarrow>
               (case parse sintactic_analyzer of
                  Inl e \<Rightarrow> ([Lexical, Syntactic], Inl e)
                | Inr _ \<Rightarrow> ([Lexical, Syntactic, Semantic], analyze tokens_))))"

declare lex_loop.simps [simp del]
declare figure_sequence.simps [simp del]
declare analyze_loop.simps [simp del]

subsection \<open>The grammar of the specification\<close>

text \<open>
  The grammar, as the specification and the header of \<^verbatim>\<open>sintactic.py\<close> give it:
  \<^verbatim>\<open>Program := KEYWORD("START") FigureSeq KEYWORD("END")\<close>,
  \<^verbatim>\<open>Figure := FIGURE DELIM("(") SIZE COLOR DELIM(")")\<close>, with the kind names the
  lexer uses (\<^verbatim>\<open>KEYWORDS\<close>, \<^verbatim>\<open>SPECIALCHAR\<close>). A clause is the triple of the
  texts of its \<^verbatim>\<open>FIGURE\<close>, \<^verbatim>\<open>SIZE\<close> and \<^verbatim>\<open>COLOR\<close> tokens.
\<close>

type_synonym clause = "string \<times> string \<times> string"

definition Figure :: "clause \<Rightarrow> token list" where
  "Figure c = [Token ''FIGURE'' (fst c), Token ''SPECIALCHAR'' ''('',
               Token ''SIZE'' (fst (snd c)), Token ''COLOR'' (snd (snd c)),
               Token ''SPECIALCHAR'' '')'']"

definition FigureSeq :: "clause list \<Rightarrow> token list" where
  "FigureSeq cs = concat (map Figure cs)"

definition Program :: "clause list \<Rightarrow> token list" where
  "Program cs = Token ''KEYWORDS'' ''START'' # FigureSeq cs @ [Token ''KEYWORDS'' ''END'']"

text \<open>The line \<^verbatim>\<open>figure\<close> prints for a clause, and the tuple a clause reduces to.\<close>

definition figure_line :: "clause \<Rightarrow> string" where
  "figure_line c = ''Figure: '' @ fst c @ ''('' @ fst (snd c) @ '' '' @ snd (snd c) @ '')''"

definition filled :: "clause \<Rightarrow> figure_tuple" where
  "filled c = (fst c, Some (fst (snd c)), Some (snd (snd c)))"

text \<open>The branches the loop of \<^verbatim>\<open>analyze\<close> takes on the five tokens of a clause.\<close>

definition clause_branches :: "branch list" where
  "clause_branches = [FigureAppended, TokenSkipped, SizeSet, ColorSet, TokenSkipped]"

subsection \<open>Auxiliary views of the loops\<close>

text \<open>
  The loop of \<^verbatim>\<open>analyze\<close> read as a recursion over the tokens that are left;
  \<open>analyze_loop_list\<close> below shows that it is the indexed loop.
\<close>

fun analyze_list ::
  "token list \<Rightarrow> figure_tuple list \<times> branch list \<Rightarrow> error + (figure_tuple list \<times> branch list)" where
  "analyze_list [] st = Inr st"
| "analyze_list (t # ts) st =
     (case analyze_step (fst st) t of
        Inl e \<Rightarrow> Inl e
      | Inr (figures', b) \<Rightarrow> analyze_list ts (figures', snd st @ [b]))"

text \<open>
  The state of the syntactic analyzer that has consumed the tokens \<open>done\<close>, has
  \<open>rest\<close> before it and has printed \<open>out\<close>.
\<close>

definition parser_at :: "token list \<Rightarrow> token list \<Rightarrow> string list \<Rightarrow> parser" where
  "parser_at done rest out =
     \<lparr>tokens = done @ rest,
      current_token = (case rest of [] \<Rightarrow> None | t # _ \<Rightarrow> Some t),
      pos = int (length done), printed = out\<rparr>"

subsection \<open>Auxiliary notions for the lexical analyzer\<close>

text \<open>
  The literal texts of the five token patterns, the characters that occur in
  some pattern or are passed over by the scan (space, tab, newline), and the
  match of the five token groups alone (\<^verbatim>\<open>SKIP\<close> and \<^verbatim>\<open>MISMATCH\<close> left out).
\<close>

definition literals :: "string list" where
  "literals =
     [''addCircle'', ''addSquare'', ''addTriangle'', ''addHeart'',
      ''RED'', ''PINK'', ''BLUE'', ''BLACK'', ''START'', ''END'',
      ''1'', ''2'', ''3'', ''4'', ''5'', ''('', '')'']"

definition pattern_chars :: "char list" where
  "pattern_chars = concat literals @ [CHR '' '', CHR 0x09, CHR 0x0A]"

definition literal_match :: "string \<Rightarrow> (string \<times> string) option" where
  "literal_match s = first_group (take 5 token_specification) s"

text \<open>The tokens the lexer can produce: a kind with one of the texts of its pattern.\<close>

definition lexer_token :: "token \<Rightarrow> bool" where
  "lexer_token t \<longleftrightarrow>
     type_of t = ''FIGURE'' \<and> value_of t \<in> set [''addCircle'', ''addSquare'', ''addTriangle'', ''addHeart'']
   \<or> type_of t = ''COLOR'' \<and> value_of t \<in> set [''RED'', ''PINK'', ''BLUE'', ''BLACK'']
   \<or> type_of t = ''KEYWORDS'' \<and> value_of t \<in> set [''START'', ''END'']
   \<or> type_of t = ''SIZE'' \<and> value_of t \<in> set [''1'', ''2'', ''3'', ''4'', ''5'']
   \<or> type_of t = ''SPECIALCHAR'' \<and> value_of t \<in> set [''('', '')'']"

text \<open>The text with every newline replaced by a space.\<close>

definition newline_to_space :: "string \<Rightarrow> string" where
  "newline_to_space s = map (\<lambda>c. if c = CHR 0x0A then CHR '' '' else c) s"

text \<open>The exception the lexer raises at the character \<open>c\<close>, and "no group but
  \<^verbatim>\<open>MISMATCH\<close> matches at the start of \<open>s\<close>".\<close>

definition unexpected :: "char \<Rightarrow> error" where
  "unexpected c = RuntimeError ([c] @ '' unexpected'')"


section \<open>Properties\<close>

subsection \<open>The syntactic analyzer on the state view\<close>

lemma advance_at: "advance (parser_at done (t # rest) out) = Inr (parser_at (done @ [t]) rest out)"
proof -
  have n: "nat (int (length done) + 1) = Suc (length done)" by simp
  show ?thesis
    by (cases rest) (simp_all add: advance_def parser_at_def py_index_def Let_def nth_append n)
qed

lemma printed_at_simp [simp]: "printed (parser_at done rest out) = out"
  by (simp add: parser_at_def)

lemma current_at_Nil [simp]: "current_token (parser_at done [] out) = None"
  by (simp add: parser_at_def)

lemma current_at_Cons [simp]: "current_token (parser_at done (t # rest) out) = Some t"
  by (simp add: parser_at_def)

lemma printed_at: "(parser_at done rest out)\<lparr>printed := out'\<rparr> = parser_at done rest out'"
  by (simp add: parser_at_def)

lemma init_at: "ts \<noteq> [] \<Longrightarrow> SintacticAnalyzer ts = Inr (parser_at [] ts [])"
  by (cases ts) (simp_all add: SintacticAnalyzer_def advance_def parser_at_def py_index_def Let_def)

lemma init_Nil: "SintacticAnalyzer [] = Inr \<lparr>tokens = [], current_token = None, pos = 0, printed = []\<rparr>"
  by (simp add: SintacticAnalyzer_def advance_def Let_def)

lemma is_kind_at: "is_kind (current_token (parser_at done rest out)) k \<longleftrightarrow>
   (\<exists>v rest'. rest = Token k v # rest')"
  apply (cases rest) apply (simp_all add: is_kind_def)
  subgoal for t r by (cases t) auto
  done

lemma is_kind_value_at: "is_kind_value (current_token (parser_at done rest out)) k v \<longleftrightarrow>
   (\<exists>rest'. rest = Token k v # rest')"
  apply (cases rest) apply (simp_all add: is_kind_value_def)
  subgoal for t r by (cases t) auto
  done

lemma figure_ok:
  "figure (parser_at done (Figure c @ rest) out) =
     Inr (parser_at (done @ Figure c) rest (out @ [figure_line c]))"
  by (simp add: figure_def Figure_def is_kind_def is_kind_value_def advance_at printed_at figure_line_def)

lemma figure_Inr:
  assumes "figure (parser_at done rest out) = Inr q"
  shows "\<exists>c rest'. rest = Figure c @ rest' \<and> q = parser_at (done @ Figure c) rest' (out @ [figure_line c])"
proof -
  from assms obtain f r1 where 1: "rest = Token ''FIGURE'' f # r1"
    by (auto simp: figure_def is_kind_at split: if_splits)
  from assms 1 obtain r2 where 2: "r1 = Token ''SPECIALCHAR'' ''('' # r2"
    by (auto simp: figure_def is_kind_at is_kind_value_at advance_at split: if_splits)
  from assms 1 2 obtain s r3 where 3: "r2 = Token ''SIZE'' s # r3"
    by (auto simp: figure_def is_kind_at is_kind_value_at advance_at split: if_splits)
  from assms 1 2 3 obtain c r4 where 4: "r3 = Token ''COLOR'' c # r4"
    by (auto simp: figure_def is_kind_at is_kind_value_at advance_at split: if_splits)
  from assms 1 2 3 4 obtain r5 where 5: "r4 = Token ''SPECIALCHAR'' '')'' # r5"
    by (auto simp: figure_def is_kind_at is_kind_value_at advance_at split: if_splits)
  have "rest = Figure (f, s, c) @ r5" by (simp add: 1 2 3 4 5 Figure_def)
  with assms figure_ok [of "done" "(f, s, c)" r5 out] show ?thesis by auto
qed

lemma advance_at_ex: "rest \<noteq> [] \<Longrightarrow> \<exists>q. advance (parser_at done rest out) = Inr q"
  by (cases rest) (simp_all add: advance_at)

lemma figure_Inl:
  assumes "figure (parser_at done rest out) = Inl e"
  shows "\<exists>m. e = SyntaxError m"
proof (cases "\<exists>c rest'. rest = Figure c @ rest'")
  case True
  with assms show ?thesis by (auto simp: figure_ok)
next
  case False
  show ?thesis
  proof (cases rest)
    case Nil
    with assms show ?thesis by (auto simp: figure_def is_kind_def error_def)
  next
    case (Cons t0 r1)
    note 0 = this
    show ?thesis
    proof (cases r1)
      case Nil
      with assms 0 show ?thesis
        by (auto simp: figure_def is_kind_def is_kind_value_def error_def advance_at split: if_splits)
    next
      case (Cons t1 r2)
      note 1 = this
      show ?thesis
      proof (cases r2)
        case Nil
        with assms 0 1 show ?thesis
          by (auto simp: figure_def is_kind_def is_kind_value_def error_def advance_at split: if_splits)
      next
        case (Cons t2 r3)
        note 2 = this
        show ?thesis
        proof (cases r3)
          case Nil
          with assms 0 1 2 show ?thesis
            by (auto simp: figure_def is_kind_def is_kind_value_def error_def advance_at split: if_splits)
        next
          case (Cons t3 r4)
          note 3 = this
          show ?thesis
          proof (cases r4)
            case Nil
            with assms 0 1 2 3 show ?thesis
              by (auto simp: figure_def is_kind_def is_kind_value_def error_def advance_at split: if_splits)
          next
            case (Cons t4 r5)
            with assms 0 1 2 3 show ?thesis
              by (auto simp: figure_def is_kind_def is_kind_value_def error_def advance_at printed_at split: if_splits)
          qed
        qed
      qed
    qed
  qed
qed


lemma FigureSeq_Cons: "FigureSeq (c # cs) = Figure c @ FigureSeq cs"
  by (simp add: FigureSeq_def)

lemma FigureSeq_Nil: "FigureSeq [] = []"
  by (simp add: FigureSeq_def)

lemma Figure_head: "\<exists>r. Figure c @ rest = Token ''FIGURE'' (fst c) # r"
  by (simp add: Figure_def)

lemma figure_sequence_stop:
  "\<not> (\<exists>v r. rest = Token ''FIGURE'' v # r) \<Longrightarrow>
   figure_sequence (parser_at done rest out) = Inr (parser_at done rest out)"
  by (subst figure_sequence.simps) (simp add: is_kind_at)

lemma figure_sequence_ok:
  "\<not> (\<exists>v r. rest = Token ''FIGURE'' v # r) \<Longrightarrow>
   figure_sequence (parser_at done (FigureSeq cs @ rest) out) =
     Inr (parser_at (done @ FigureSeq cs) rest (out @ map figure_line cs))"
proof (induction cs arbitrary: "done" out)
  case Nil
  then show ?case by (simp add: FigureSeq_Nil figure_sequence_stop)
next
  case (Cons c cs)
  have k: "is_kind (current_token (parser_at done (Figure c @ FigureSeq cs @ rest) out)) ''FIGURE''"
    by (simp add: Figure_def is_kind_def)
  show ?case
    apply (subst figure_sequence.simps)
    apply (simp only: FigureSeq_Cons append_assoc k if_True figure_ok sum.case)
    apply (simp add: Cons.IH [OF Cons.prems])
    done
qed

lemma figure_sequence_Inr:
  "figure_sequence (parser_at done rest out) = Inr q \<Longrightarrow>
   \<exists>cs rest'. rest = FigureSeq cs @ rest' \<and>
     q = parser_at (done @ FigureSeq cs) rest' (out @ map figure_line cs) \<and>
     \<not> (\<exists>v r. rest' = Token ''FIGURE'' v # r)"
proof (induction "length rest" arbitrary: "done" rest out rule: less_induct)
  case less
  show ?case
  proof (cases "is_kind (current_token (parser_at done rest out)) ''FIGURE''")
    case False
    with less.prems have "q = parser_at done rest out"
      by (subst (asm) figure_sequence.simps) simp
    with False have "rest = FigureSeq [] @ rest \<and>
       q = parser_at (done @ FigureSeq []) rest (out @ map figure_line []) \<and>
       \<not> (\<exists>v r. rest = Token ''FIGURE'' v # r)"
      by (simp add: FigureSeq_Nil is_kind_at)
    then show ?thesis by blast
  next
    case True
    with less.prems obtain p1 where f: "figure (parser_at done rest out) = Inr p1"
      and s: "figure_sequence p1 = Inr q"
      by (subst (asm) figure_sequence.simps) (auto split: sum.splits)
    from figure_Inr [OF f] obtain c r1 where r: "rest = Figure c @ r1"
      and p1: "p1 = parser_at (done @ Figure c) r1 (out @ [figure_line c])" by blast
    have "length r1 < length rest" by (simp add: r Figure_def)
    from less.hyps [OF this s [unfolded p1]] obtain cs rest' where
      "r1 = FigureSeq cs @ rest'"
      "q = parser_at ((done @ Figure c) @ FigureSeq cs) rest' ((out @ [figure_line c]) @ map figure_line cs)"
      "\<not> (\<exists>v r. rest' = Token ''FIGURE'' v # r)" by blast
    then have "rest = FigureSeq (c # cs) @ rest' \<and>
       q = parser_at (done @ FigureSeq (c # cs)) rest' (out @ map figure_line (c # cs)) \<and>
       \<not> (\<exists>v r. rest' = Token ''FIGURE'' v # r)"
      by (simp add: r FigureSeq_Cons)
    then show ?thesis by blast
  qed
qed

lemma figure_sequence_Inl:
  "figure_sequence (parser_at done rest out) = Inl e \<Longrightarrow> \<exists>m. e = SyntaxError m"
proof (induction "length rest" arbitrary: "done" rest out rule: less_induct)
  case less
  show ?case
  proof (cases "is_kind (current_token (parser_at done rest out)) ''FIGURE''")
    case False
    with less.prems show ?thesis
      by (subst (asm) figure_sequence.simps) simp
  next
    case True
    show ?thesis
    proof (cases "figure (parser_at done rest out)")
      case (Inl e')
      with True less.prems have "e' = e"
        by (subst (asm) figure_sequence.simps) simp
      with Inl figure_Inl show ?thesis by blast
    next
      case (Inr p1)
      with True less.prems have s: "figure_sequence p1 = Inl e"
        by (subst (asm) figure_sequence.simps) simp
      from figure_Inr [OF Inr] obtain c r1 where r: "rest = Figure c @ r1"
        and p1: "p1 = parser_at (done @ Figure c) r1 (out @ [figure_line c])" by blast
      have "length r1 < length rest" by (simp add: r Figure_def)
      from less.hyps [OF this s [unfolded p1]] show ?thesis .
    qed
  qed
qed

lemma start_at:
  "start (parser_at done (t # rest) out) =
     (if t = Token ''KEYWORDS'' ''START'' then Inr (parser_at (done @ [t]) rest out)
      else Inl (SyntaxError (''Syntax error: expected START, found '' @ repr_token t)))"
  by (cases t) (auto simp: start_def advance_at error_def)

lemma end_ok:
  "end' (parser_at done [Token ''KEYWORDS'' ''END''] out) =
     Inr (parser_at (done @ [Token ''KEYWORDS'' ''END'']) [] out)"
  by (simp add: end'_def is_kind_value_def advance_at)

lemma end_trailing:
  "end' (parser_at done (Token ''KEYWORDS'' ''END'' # t # r) out) =
     Inl (SyntaxError (''Syntax error: expected No extra tokens expected after END, found ''
                       @ repr_token t))"
  by (simp add: end'_def is_kind_value_def advance_at error_def)

lemma end_other:
  "\<not> (\<exists>r. rest = Token ''KEYWORDS'' ''END'' # r) \<Longrightarrow>
   end' (parser_at done rest out) =
     Inl (SyntaxError (''Syntax error: expected END, found ''
                       @ format_current (current_token (parser_at done rest out))))"
  by (simp add: end'_def is_kind_value_at error_def)

lemma end_Inr:
  assumes "end' (parser_at done rest out) = Inr q"
  shows "rest = [Token ''KEYWORDS'' ''END''] \<and> q = parser_at (done @ rest) [] out"
proof (cases "\<exists>r. rest = Token ''KEYWORDS'' ''END'' # r")
  case False
  with assms show ?thesis by (simp add: end_other)
next
  case True
  then obtain r where r: "rest = Token ''KEYWORDS'' ''END'' # r" by blast
  show ?thesis
  proof (cases r)
    case Nil
    with assms r show ?thesis by (simp add: end_ok)
  next
    case (Cons t r')
    with assms r show ?thesis by (simp add: end_trailing)
  qed
qed

lemma end_Inl:
  assumes "end' (parser_at done rest out) = Inl e"
  shows "\<exists>m. e = SyntaxError m"
proof (cases "\<exists>r. rest = Token ''KEYWORDS'' ''END'' # r")
  case False
  with assms show ?thesis by (auto simp: end_other)
next
  case True
  then obtain r where r: "rest = Token ''KEYWORDS'' ''END'' # r" by blast
  show ?thesis
  proof (cases r)
    case Nil
    with assms r show ?thesis by (simp add: end_ok)
  next
    case (Cons t r')
    with assms r show ?thesis by (auto simp: end_trailing)
  qed
qed

lemma validate_Nil: "validate [] = Inl (none_has_no_attribute ''type_'')"
  by (simp add: validate_def init_Nil parse_def start_def)

lemma validate_Cons:
  "validate (t # ts) =
     (if t = Token ''KEYWORDS'' ''START'' then
        (case figure_sequence (parser_at [t] ts []) of
           Inl e \<Rightarrow> Inl e | Inr p2 \<Rightarrow> end' p2)
      else Inl (SyntaxError (''Syntax error: expected START, found '' @ repr_token t)))"
  by (simp add: validate_def init_at parse_def start_at)

lemma END_not_FIGURE: "\<not> (\<exists>v r. Token ''KEYWORDS'' ''END'' # x = Token ''FIGURE'' v # r)"
  by simp

lemma validate_Program:
  "validate (Program cs) = Inr (parser_at (Program cs) [] (map figure_line cs))"
  unfolding Program_def validate_Cons
  by (simp add: figure_sequence_ok [OF END_not_FIGURE] end_ok)

lemma validate_trailing:
  "extra \<noteq> [] \<Longrightarrow> validate (Program cs @ extra) =
     Inl (SyntaxError (''Syntax error: expected No extra tokens expected after END, found ''
                       @ repr_token (hd extra)))"
  by (cases extra)
     (simp_all add: Program_def validate_Cons figure_sequence_ok [OF END_not_FIGURE] end_trailing)

lemma validate_Inr:
  assumes "validate ts = Inr q"
  shows "\<exists>cs. ts = Program cs \<and> q = parser_at ts [] (map figure_line cs)"
proof (cases ts)
  case Nil
  with assms show ?thesis by (simp add: validate_Nil)
next
  case (Cons t r)
  with assms have t: "t = Token ''KEYWORDS'' ''START''"
    by (simp add: validate_Cons split: if_splits)
  from assms Cons t obtain p2 where fs: "figure_sequence (parser_at [t] r []) = Inr p2"
    and e: "end' p2 = Inr q"
    by (auto simp: validate_Cons split: sum.splits)
  from figure_sequence_Inr [OF fs] obtain cs rest' where r: "r = FigureSeq cs @ rest'"
    and p2: "p2 = parser_at ([t] @ FigureSeq cs) rest' ([] @ map figure_line cs)" by blast
  from end_Inr [OF e [unfolded p2]] have "rest' = [Token ''KEYWORDS'' ''END'']"
    and "q = parser_at (([t] @ FigureSeq cs) @ rest') [] ([] @ map figure_line cs)" by blast+
  then have "ts = Program cs \<and> q = parser_at ts [] (map figure_line cs)"
    by (simp add: Cons t r Program_def)
  then show ?thesis by blast
qed

lemma validate_Inl:
  assumes "validate ts = Inl e" "ts \<noteq> []"
  shows "\<exists>m. e = SyntaxError m"
proof -
  from assms(2) obtain t r where ts: "ts = t # r" by (cases ts) auto
  show ?thesis
  proof (cases "t = Token ''KEYWORDS'' ''START''")
    case False
    with assms ts show ?thesis by (auto simp: validate_Cons)
  next
    case True
    show ?thesis
    proof (cases "figure_sequence (parser_at [t] r [])")
      case (Inl e')
      with assms ts True have "e' = e" by (simp add: validate_Cons)
      with Inl figure_sequence_Inl show ?thesis by blast
    next
      case (Inr p2)
      with assms ts True have e: "end' p2 = Inl e" by (simp add: validate_Cons)
      from figure_sequence_Inr [OF Inr] obtain d rest' out where "p2 = parser_at d rest' out"
        by blast
      with e end_Inl show ?thesis by blast
    qed
  qed
qed


lemma py_index_last: "py_index (xs @ [x]) (- 1) = Inr x"
  by (simp add: py_index_def nth_append)

lemma py_store_last: "py_store (xs @ [x]) (- 1) y = Inr (xs @ [y])"
  by (simp add: py_store_def)

lemma step_FIGURE:
  "analyze_step figs (Token ''FIGURE'' v) = Inr (figs @ [(v, None, None)], FigureAppended)"
  by (simp add: analyze_step_def)

lemma step_SIZE_Nil: "analyze_step [] (Token ''SIZE'' v) = Inr ([], SizeIgnored)"
  by (simp add: analyze_step_def)

lemma step_SIZE_snoc:
  "analyze_step (figs @ [(n, s, c)]) (Token ''SIZE'' v) =
     (if s = None then Inr (figs @ [(n, Some v, None)], SizeSet)
      else Inr (figs @ [(n, s, c)], SizeIgnored))"
  by (simp add: analyze_step_def py_index_last py_store_last)

lemma step_COLOR_Nil: "analyze_step [] (Token ''COLOR'' v) = Inr ([], ColorIgnored)"
  by (simp add: analyze_step_def)

lemma step_COLOR_snoc:
  "analyze_step (figs @ [(n, s, c)]) (Token ''COLOR'' v) =
     (if c = None then Inr (figs @ [(n, s, Some v)], ColorSet)
      else Inr (figs @ [(n, s, c)], ColorIgnored))"
  by (simp add: analyze_step_def py_index_last py_store_last)

lemma step_other:
  "type_of t \<noteq> ''FIGURE'' \<Longrightarrow> type_of t \<noteq> ''SIZE'' \<Longrightarrow> type_of t \<noteq> ''COLOR'' \<Longrightarrow>
   analyze_step figs t = Inr (figs, TokenSkipped)"
  by (simp add: analyze_step_def)

lemma step_total: "\<exists>r. analyze_step figs t = Inr r"
proof (cases figs rule: rev_cases)
  case Nil
  then show ?thesis by (simp add: analyze_step_def)
next
  case (snoc fs f)
  then show ?thesis
    by (cases f) (simp add: analyze_step_def py_index_last py_store_last)
qed

lemma analyze_list_total: "\<exists>st'. analyze_list ts st = Inr st'"
proof (induction ts arbitrary: st)
  case Nil
  show ?case by simp
next
  case (Cons t ts)
  from step_total [of "fst st" t] obtain figs b where "analyze_step (fst st) t = Inr (figs, b)"
    by (metis surj_pair)
  with Cons.IH [of "(figs, snd st @ [b])"] show ?case by simp
qed

lemma analyze_loop_list:
  "i \<le> length ts \<Longrightarrow> analyze_loop ts i st = analyze_list (drop i ts) st"
proof (induction ts i st rule: analyze_loop.induct)
  case (1 ts i st)
  show ?case
  proof (cases "i < length ts")
    case False
    with "1.prems" show ?thesis by (subst analyze_loop.simps) simp
  next
    case True
    then have ix: "py_index ts (int i) = Inr (ts ! i)" by (simp add: py_index_def)
    have d: "drop i ts = ts ! i # drop (Suc i) ts" using True by (simp add: Cons_nth_drop_Suc)
    show ?thesis
    proof (cases "analyze_step (fst st) (ts ! i)")
      case (Inl e)
      with True ix d show ?thesis by (subst analyze_loop.simps) simp
    next
      case (Inr r)
      obtain figs b where r: "r = (figs, b)" by (cases r)
      from "1.IH" [OF True ix Inr [unfolded r] refl] True
      have "analyze_loop ts (i + 1) (figs, snd st @ [b]) =
            analyze_list (drop (i + 1) ts) (figs, snd st @ [b])" by simp
      with True ix d Inr r show ?thesis by (subst analyze_loop.simps) simp
    qed
  qed
qed

lemma analyze_traced_list: "analyze_traced ts = analyze_list ts ([], [])"
  by (simp add: analyze_traced_def analyze_loop_list)

lemma analyze_list_append:
  "analyze_list xs st = Inr st' \<Longrightarrow> analyze_list (xs @ ys) st = analyze_list ys st'"
  by (induction xs arbitrary: st) (auto split: sum.splits)

lemma analyze_list_Figure:
  "analyze_list (Figure c) (figs, tr) = Inr (figs @ [filled c], tr @ clause_branches)"
  by (simp add: Figure_def step_FIGURE step_other step_SIZE_snoc step_COLOR_snoc
      filled_def clause_branches_def)

lemma analyze_list_FigureSeq:
  "analyze_list (FigureSeq cs) (figs, tr) =
     Inr (figs @ map filled cs, tr @ concat (map (\<lambda>c. clause_branches) cs))"
proof (induction cs arbitrary: figs tr)
  case Nil
  show ?case by (simp add: FigureSeq_Nil)
next
  case (Cons c cs)
  show ?case
    by (simp add: FigureSeq_Cons analyze_list_append [OF analyze_list_Figure] Cons.IH)
qed

lemma analyze_traced_Program:
  "analyze_traced (Program cs) =
     Inr (map filled cs, TokenSkipped # concat (map (\<lambda>c. clause_branches) cs) @ [TokenSkipped])"
proof -
  have "analyze_list (Program cs) ([], []) =
        analyze_list (FigureSeq cs @ [Token ''KEYWORDS'' ''END'']) ([], [TokenSkipped])"
    by (simp add: Program_def step_other)
  also have "\<dots> = analyze_list [Token ''KEYWORDS'' ''END'']
                     ([] @ map filled cs, [TokenSkipped] @ concat (map (\<lambda>c. clause_branches) cs))"
    by (rule analyze_list_append [OF analyze_list_FigureSeq])
  also have "\<dots> = Inr (map filled cs,
                        TokenSkipped # concat (map (\<lambda>c. clause_branches) cs) @ [TokenSkipped])"
    by (simp add: step_other)
  finally show ?thesis by (simp add: analyze_traced_list)
qed

lemma analyze_Program: "analyze (Program cs) = Inr (map filled cs)"
  by (simp add: analyze_def analyze_traced_Program)

lemma filter_FIGURE_Program:
  "filter (\<lambda>t. type_of t = ''FIGURE'') (Program cs) = map (\<lambda>c. Token ''FIGURE'' (fst c)) cs"
  by (induction cs) (simp_all add: Program_def FigureSeq_def Figure_def)

lemma no_ignore_branches:
  "SizeIgnored \<notin> set (TokenSkipped # concat (map (\<lambda>c. clause_branches) cs) @ [TokenSkipped]) \<and>
   ColorIgnored \<notin> set (TokenSkipped # concat (map (\<lambda>c. clause_branches) cs) @ [TokenSkipped])"
  by (auto simp: clause_branches_def)

subsection \<open>The lexical analyzer, one step at a time\<close>

lemma tok_regex_split:
  "tok_regex s =
     (case literal_match s of
        Some r \<Rightarrow> Some r
      | None \<Rightarrow>
          (case skip_pattern s of
             Some v \<Rightarrow> Some (''SKIP'', v)
           | None \<Rightarrow> (case dot_pattern s of Some v \<Rightarrow> Some (''MISMATCH'', v) | None \<Rightarrow> None)))"
  by (simp add: tok_regex_def literal_match_def token_specification_def split: option.splits)

lemma alternation_Some: "alternation ps s = Some v \<Longrightarrow> v \<in> set ps \<and> prefix v s"
  by (induction ps) (auto split: if_splits)

lemma alternation_cong:
  "(\<And>p. p \<in> set ps \<Longrightarrow> prefix p s = prefix p s') \<Longrightarrow> alternation ps s = alternation ps s'"
  by (induction ps) auto



lemma first_group_Some:
  "first_group gs s = Some (k, v) \<Longrightarrow> \<exists>p. (k, p) \<in> set gs \<and> p s = Some v"
  by (induction gs) (auto split: option.splits)

lemma literal_groups:
  assumes "(k, p) \<in> set (take 5 token_specification)"
  shows "\<exists>ps. p = alternation ps \<and> set ps \<subseteq> set literals \<and>
              (\<forall>w \<in> set ps. lexer_token (Token k w))"
proof -
  from assms have
    "k = ''FIGURE'' \<and> p = alternation [''addCircle'', ''addSquare'', ''addTriangle'', ''addHeart'']
     \<or> k = ''COLOR'' \<and> p = alternation [''RED'', ''PINK'', ''BLUE'', ''BLACK'']
     \<or> k = ''KEYWORDS'' \<and> p = alternation [''START'', ''END'']
     \<or> k = ''SIZE'' \<and> p = alternation [''1'', ''2'', ''3'', ''4'', ''5'']
     \<or> k = ''SPECIALCHAR'' \<and> p = alternation [''('', '')'']"
    unfolding token_specification_def by (simp del: alternation.simps)
  then show ?thesis
  proof (elim disjE conjE)
    assume k: "k = ''FIGURE''" and p: "p = alternation [''addCircle'', ''addSquare'', ''addTriangle'', ''addHeart'']"
    have "set [''addCircle'', ''addSquare'', ''addTriangle'', ''addHeart''] \<subseteq> set literals"
      by (simp add: literals_def)
    moreover have "\<forall>w \<in> set [''addCircle'', ''addSquare'', ''addTriangle'', ''addHeart'']. lexer_token (Token k w)"
      unfolding k by (simp add: lexer_token_def)
    ultimately show ?thesis using p by (intro exI [of _ "[''addCircle'', ''addSquare'', ''addTriangle'', ''addHeart'']"]) simp
  next
    assume k: "k = ''COLOR''" and p: "p = alternation [''RED'', ''PINK'', ''BLUE'', ''BLACK'']"
    have "set [''RED'', ''PINK'', ''BLUE'', ''BLACK''] \<subseteq> set literals"
      by (simp add: literals_def)
    moreover have "\<forall>w \<in> set [''RED'', ''PINK'', ''BLUE'', ''BLACK'']. lexer_token (Token k w)"
      unfolding k by (simp add: lexer_token_def)
    ultimately show ?thesis using p by (intro exI [of _ "[''RED'', ''PINK'', ''BLUE'', ''BLACK'']"]) simp
  next
    assume k: "k = ''KEYWORDS''" and p: "p = alternation [''START'', ''END'']"
    have "set [''START'', ''END''] \<subseteq> set literals"
      by (simp add: literals_def)
    moreover have "\<forall>w \<in> set [''START'', ''END'']. lexer_token (Token k w)"
      unfolding k by (simp add: lexer_token_def)
    ultimately show ?thesis using p by (intro exI [of _ "[''START'', ''END'']"]) simp
  next
    assume k: "k = ''SIZE''" and p: "p = alternation [''1'', ''2'', ''3'', ''4'', ''5'']"
    have "set [''1'', ''2'', ''3'', ''4'', ''5''] \<subseteq> set literals"
      by (simp add: literals_def)
    moreover have "\<forall>w \<in> set [''1'', ''2'', ''3'', ''4'', ''5'']. lexer_token (Token k w)"
      unfolding k by (simp add: lexer_token_def)
    ultimately show ?thesis using p by (intro exI [of _ "[''1'', ''2'', ''3'', ''4'', ''5'']"]) simp
  next
    assume k: "k = ''SPECIALCHAR''" and p: "p = alternation [''('', '')'']"
    have "set [''('', '')''] \<subseteq> set literals"
      by (simp add: literals_def)
    moreover have "\<forall>w \<in> set [''('', '')'']. lexer_token (Token k w)"
      unfolding k by (simp add: lexer_token_def)
    ultimately show ?thesis using p by (intro exI [of _ "[''('', '')'']"]) simp
  qed
qed

lemma literal_match_Some:
  assumes "literal_match s = Some (k, v)"
  shows "prefix v s" and "lexer_token (Token k v)" and "v \<in> set literals"
proof -
  from first_group_Some [OF assms [unfolded literal_match_def]]
  obtain p where p: "(k, p) \<in> set (take 5 token_specification)" and v: "p s = Some v" by blast
  from literal_groups [OF p] obtain ps where ps: "p = alternation ps"
    and l: "set ps \<subseteq> set literals"
    and all: "\<forall>w \<in> set ps. lexer_token (Token k w)" by blast
  from v ps have a: "v \<in> set ps" "prefix v s" by (auto dest: alternation_Some)
  from a show "prefix v s" by simp
  from a all show "lexer_token (Token k v)" by blast
  from a l show "v \<in> set literals" by blast
qed

lemma lexer_token_facts:
  assumes "lexer_token (Token k v)"
  shows "k \<noteq> ''SKIP''" and "k \<noteq> ''MISMATCH''" and "v \<noteq> []"
    and "CHR 0x0A \<notin> set v" and "CHR '' '' \<notin> set v" and "CHR 0x09 \<notin> set v"
  using assms by (auto simp: lexer_token_def)

lemma literals_facts:
  assumes "p \<in> set literals"
  shows "set p \<subseteq> set pattern_chars" and "CHR 0x0A \<notin> set p" and "CHR '' '' \<notin> set p"
    and "CHR 0x09 \<notin> set p" and "p \<noteq> []"
proof -
  show "set p \<subseteq> set pattern_chars" using assms by (auto simp: pattern_chars_def)
  show "CHR 0x0A \<notin> set p" "CHR '' '' \<notin> set p" "CHR 0x09 \<notin> set p" "p \<noteq> []"
    using assms by (auto simp: literals_def)
qed

lemma first_group_cong:
  "(\<And>k p. (k, p) \<in> set gs \<Longrightarrow> p s = p s') \<Longrightarrow> first_group gs s = first_group gs s'"
proof (induction gs)
  case Nil
  show ?case by simp
next
  case (Cons g gs)
  obtain k p where g: "g = (k, p)" by (cases g)
  from Cons.prems [of k p] g have "p s = p s'" by simp
  moreover have "first_group gs s = first_group gs s'"
  proof (rule Cons.IH)
    fix k p assume "(k, p) \<in> set gs"
    then show "p s = p s'" using Cons.prems [of k p] by simp
  qed
  ultimately show ?case by (simp add: g split: option.splits)
qed

lemma literal_match_cong:
  assumes "\<And>p. p \<in> set literals \<Longrightarrow> prefix p s = prefix p s'"
  shows "literal_match s = literal_match s'"
  unfolding literal_match_def
proof (rule first_group_cong)
  fix k p assume "(k, p) \<in> set (take 5 token_specification)"
  from literal_groups [OF this] obtain ps where p: "p = alternation ps"
    and l: "set ps \<subseteq> set literals" by blast
  have "alternation ps s = alternation ps s'"
    by (rule alternation_cong) (use assms l in blast)
  with p show "p s = p s'" by simp
qed



lemma literal_match_head:
  assumes "literal_match (c # s) = Some (k, v)"
  shows "c \<in> set v" and "c \<in> set pattern_chars"
proof -
  from literal_match_Some [OF assms] have p: "prefix v (c # s)" and l: "v \<in> set literals"
    and t: "lexer_token (Token k v)" by blast+
  from lexer_token_facts(3) [OF t] p show "c \<in> set v"
    by (cases v) auto
  with literals_facts(1) [OF l] show "c \<in> set pattern_chars" by blast
qed

lemma prefix_newline_to_space:
  "CHR 0x0A \<notin> set p \<Longrightarrow> CHR '' '' \<notin> set p \<Longrightarrow> prefix p (newline_to_space s) = prefix p s"
proof (induction p arbitrary: s)
  case Nil
  show ?case by simp
next
  case (Cons a p)
  show ?case
  proof (cases s)
    case Nil
    then show ?thesis by (simp add: newline_to_space_def)
  next
    case (Cons b s')
    with Cons.prems Cons.IH [of s'] show ?thesis
      by (auto simp: newline_to_space_def)
  qed
qed

lemma prefix_fresh: "c \<notin> set p \<Longrightarrow> prefix p (pre @ c # post) = prefix p pre"
proof -
  assume c: "c \<notin> set p"
  have "\<And>us. p = pre @ us \<Longrightarrow> prefix us (c # post) \<Longrightarrow> us = []"
  proof -
    fix us assume "p = pre @ us" "prefix us (c # post)"
    with c show "us = []" by (cases us) auto
  qed
  then show ?thesis by (auto simp: prefix_append)
qed

lemma blank_simps: "blank c \<longleftrightarrow> c = CHR '' '' \<or> c = CHR 0x09"
  by (simp add: blank_def)

lemma literal_match_newline: "literal_match (CHR 0x0A # s) = None"
proof (cases "literal_match (CHR 0x0A # s)")
  case None
  then show ?thesis .
next
  case (Some r)
  obtain k v where "r = (k, v)" by (cases r)
  with Some literal_match_head(1) [of "CHR 0x0A" s k v] literal_match_Some(2) [of "CHR 0x0A # s" k v]
    lexer_token_facts(4) [of k v]
  show ?thesis by auto
qed

lemma literal_match_blank: "blank c \<Longrightarrow> literal_match (c # s) = None"
proof (cases "literal_match (c # s)")
  case None
  then show ?thesis .
next
  case (Some r)
  assume b: "blank c"
  obtain k v where "r = (k, v)" by (cases r)
  with Some b literal_match_head(1) [of c s k v] literal_match_Some(2) [of "c # s" k v]
    lexer_token_facts(5,6) [of k v]
  show ?thesis by (auto simp: blank_def)
qed

lemma lex_Nil: "lex_loop [] acc = Inr acc"
  by (simp add: lex_loop.simps)

lemma lex_newline: "lex_loop (CHR 0x0A # s) acc = lex_loop s acc"
  by (subst lex_loop.simps)
     (simp add: tok_regex_split literal_match_newline skip_pattern_def blank_def)

lemma lex_blank_run: "blank c \<Longrightarrow> lex_loop (c # s) acc = lex_loop (dropWhile blank s) acc"
  by (subst lex_loop.simps)
     (simp add: tok_regex_split literal_match_blank skip_pattern_def dropWhile_eq_drop)

lemma lex_dropWhile: "lex_loop (dropWhile blank s) acc = lex_loop s acc"
proof (cases s)
  case Nil
  then show ?thesis by simp
next
  case (Cons c s')
  then show ?thesis by (cases "blank c") (simp_all add: lex_blank_run)
qed

lemma lex_blank: "blank c \<Longrightarrow> lex_loop (c # s) acc = lex_loop s acc"
  by (simp add: lex_blank_run lex_dropWhile)

lemma lex_literal:
  assumes "literal_match (v @ s) = Some (k, v)"
  shows "lex_loop (v @ s) acc = lex_loop s (acc @ [Token k v])"
proof -
  from literal_match_Some(2) [OF assms] have t: "lexer_token (Token k v)" .
  note f = lexer_token_facts [OF t]
  show ?thesis
    by (subst lex_loop.simps) (simp add: tok_regex_split assms f)
qed

lemma lex_mismatch:
  "literal_match (c # s) = None \<Longrightarrow> \<not> blank c \<Longrightarrow> c \<noteq> CHR 0x0A \<Longrightarrow>
   lex_loop (c # s) acc = Inl (unexpected c)"
  by (subst lex_loop.simps) (simp add: tok_regex_split skip_pattern_def unexpected_def)


lemma lex_induct [case_names Nil newline blank literal mismatch]:
  assumes "\<And>acc. P [] acc"
    and "\<And>s acc. P s acc \<Longrightarrow> P (CHR 0x0A # s) acc"
    and "\<And>c s acc. blank c \<Longrightarrow> P s acc \<Longrightarrow> P (c # s) acc"
    and "\<And>k v s acc. literal_match (v @ s) = Some (k, v) \<Longrightarrow> lexer_token (Token k v) \<Longrightarrow>
           v \<in> set literals \<Longrightarrow> P s (acc @ [Token k v]) \<Longrightarrow> P (v @ s) acc"
    and "\<And>c s acc. literal_match (c # s) = None \<Longrightarrow> \<not> blank c \<Longrightarrow> c \<noteq> CHR 0x0A \<Longrightarrow>
           P (c # s) acc"
  shows "P s acc"
proof (induction "length s" arbitrary: s acc rule: less_induct)
  case (less s acc)
  show ?case
  proof (cases s)
    case Nil
    with assms(1) show ?thesis by simp
  next
    case (Cons c s')
    show ?thesis
    proof (cases "c = CHR 0x0A")
      case True
      with Cons assms(2) [OF less [of s' acc]] show ?thesis by simp
    next
      case nl: False
      show ?thesis
      proof (cases "blank c")
        case True
        with Cons assms(3) [OF True less [of s' acc]] show ?thesis by simp
      next
        case False
        show ?thesis
        proof (cases "literal_match s")
          case None
          with Cons nl False assms(5) [of c s' acc] show ?thesis by simp
        next
          case (Some r)
          obtain k v where r: "r = (k, v)" by (cases r)
          note m = literal_match_Some [OF Some [unfolded r]]
          from m(1) obtain rest where s: "s = v @ rest" by (auto simp: prefix_def)
          from lexer_token_facts(3) [OF m(2)] s have "length rest < length s" by simp
          from assms(4) [OF Some [unfolded r s] m(2) m(3) less [OF this]] s
          show ?thesis by simp
        qed
      qed
    qed
  qed
qed
lemma newline_to_space_Cons:
  "newline_to_space (c # s) = (if c = CHR 0x0A then CHR '' '' else c) # newline_to_space s"
  by (simp add: newline_to_space_def)

lemma newline_to_space_append:
  "newline_to_space (v @ s) = newline_to_space v @ newline_to_space s"
  by (simp add: newline_to_space_def)

lemma newline_to_space_id: "CHR 0x0A \<notin> set v \<Longrightarrow> newline_to_space v = v"
  by (induction v) (auto simp: newline_to_space_def)

lemma literal_match_newline_to_space: "literal_match (newline_to_space s) = literal_match s"
proof (rule literal_match_cong)
  fix p assume "p \<in> set literals"
  from literals_facts(2,3) [OF this] show "prefix p (newline_to_space s) = prefix p s"
    by (rule prefix_newline_to_space)
qed

lemma fresh_facts:
  assumes "c \<notin> set pattern_chars"
  shows "\<not> blank c" and "c \<noteq> CHR 0x0A" and "\<And>p. p \<in> set literals \<Longrightarrow> c \<notin> set p"
proof -
  from assms show "\<not> blank c" "c \<noteq> CHR 0x0A" by (auto simp: pattern_chars_def blank_def)
  fix p assume "p \<in> set literals"
  from literals_facts(1) [OF this] assms show "c \<notin> set p" by blast
qed

lemma literal_match_fresh:
  assumes "c \<notin> set pattern_chars"
  shows "literal_match (pre @ c # post) = literal_match pre"
proof (rule literal_match_cong)
  fix p assume "p \<in> set literals"
  from fresh_facts(3) [OF assms this] show "prefix p (pre @ c # post) = prefix p pre"
    by (rule prefix_fresh)
qed

lemma literal_match_fresh_head:
  assumes "c \<notin> set pattern_chars"
  shows "literal_match (c # post) = None"
proof (cases "literal_match (c # post)")
  case None
  then show ?thesis .
next
  case (Some r)
  obtain k v where "r = (k, v)" by (cases r)
  with Some literal_match_head(2) [of c post k v] assms show ?thesis by simp
qed

lemma lex_loop_tokens:
  "lex_loop s acc = Inr ts \<Longrightarrow> \<exists>new. ts = acc @ new \<and> (\<forall>t \<in> set new. lexer_token t)"
proof (induction s acc arbitrary: ts rule: lex_induct)
  case (Nil acc)
  then show ?case by (simp add: lex_Nil)
next
  case (newline s acc)
  then show ?case by (simp add: lex_newline)
next
  case (blank c s acc)
  then show ?case by (simp add: lex_blank)
next
  case (literal k v s acc)
  from literal.prems have "lex_loop s (acc @ [Token k v]) = Inr ts"
    by (simp add: lex_literal [OF literal.hyps(1)])
  from literal.IH [OF this] obtain new where
    n: "ts = (acc @ [Token k v]) @ new" "\<forall>t \<in> set new. lexer_token t" by blast
  with literal.hyps(2) have
    "ts = acc @ (Token k v # new) \<and> (\<forall>t \<in> set (Token k v # new). lexer_token t)" by simp
  then show ?case by (rule exI)
next
  case (mismatch c s acc)
  then show ?case by (simp add: lex_mismatch)
qed

lemma lex_tokens: "lex src = Inr ts \<Longrightarrow> t \<in> set ts \<Longrightarrow> lexer_token t"
  using lex_loop_tokens [of src "[]" ts] by (auto simp: lex_def)

lemma lex_loop_error:
  "lex_loop s acc = Inl e \<Longrightarrow>
   \<exists>c. c \<in> set s \<and> c \<noteq> CHR 0x0A \<and> e = unexpected c"
proof (induction s acc rule: lex_induct)
  case (Nil acc)
  then show ?case by (simp add: lex_Nil)
next
  case (newline s acc)
  then show ?case by (auto simp: lex_newline)
next
  case (blank c s acc)
  then show ?case by (auto simp: lex_blank)
next
  case (literal k v s acc)
  from literal.prems have "lex_loop s (acc @ [Token k v]) = Inl e"
    by (simp add: lex_literal [OF literal.hyps(1)])
  from literal.IH [OF this] show ?case by auto
next
  case (mismatch c s acc)
  from mismatch.prems mismatch.hyps have "e = unexpected c"
    by (simp add: lex_mismatch)
  with mismatch.hyps(3) have
    "c \<in> set (c # s) \<and> c \<noteq> CHR 0x0A \<and> e = unexpected c" by simp
  then show ?case by (rule exI)
qed


lemma lex_loop_newline_to_space: "lex_loop (newline_to_space s) acc = lex_loop s acc"
proof (induction s acc rule: lex_induct)
  case (Nil acc)
  show ?case by (simp add: newline_to_space_def)
next
  case (newline s acc)
  then show ?case
    by (simp add: newline_to_space_Cons lex_newline lex_blank blank_def)
next
  case (blank c s acc)
  from blank.hyps have "c \<noteq> CHR 0x0A" by (auto simp: blank_def)
  with blank show ?case by (simp add: newline_to_space_Cons lex_blank)
next
  case (literal k v s acc)
  from lexer_token_facts(4) [OF literal.hyps(2)] have
    n: "newline_to_space (v @ s) = v @ newline_to_space s"
    by (simp add: newline_to_space_append newline_to_space_id)
  from literal.hyps(1) have "literal_match (v @ newline_to_space s) = Some (k, v)"
    using literal_match_newline_to_space [of "v @ s"] by (simp add: n)
  from lex_literal [OF this, of acc] lex_literal [OF literal.hyps(1), of acc] literal.IH
  show ?case by (simp add: n)
next
  case (mismatch c s acc)
  from mismatch.hyps(3) have n: "newline_to_space (c # s) = c # newline_to_space s"
    by (simp add: newline_to_space_Cons)
  from mismatch.hyps(1) have "literal_match (c # newline_to_space s) = None"
    using literal_match_newline_to_space [of "c # s"] by (simp add: n)
  from lex_mismatch [OF this mismatch.hyps(2,3), of acc] lex_mismatch [OF mismatch.hyps, of acc]
  show ?case by (simp add: n)
qed


lemma lex_loop_fresh_named:
  "lex_loop pre acc = Inr ts \<Longrightarrow> c \<notin> set pattern_chars \<Longrightarrow>
   lex_loop (pre @ c # post) acc = Inl (unexpected c)"
proof (induction pre acc rule: lex_induct)
  case (Nil acc)
  from lex_mismatch [OF literal_match_fresh_head [OF Nil.prems(2)] fresh_facts(1,2) [OF Nil.prems(2)]]
  show ?case by simp
next
  case (newline s acc)
  then show ?case by (simp add: lex_newline)
next
  case (blank d s acc)
  then show ?case by (simp add: lex_blank)
next
  case (literal k v s acc)
  from literal.prems(1) have 1: "lex_loop s (acc @ [Token k v]) = Inr ts"
    by (simp add: lex_literal [OF literal.hyps(1)])
  from literal.hyps(1) literal_match_fresh [OF literal.prems(2), of "v @ s" post]
  have "literal_match (v @ (s @ c # post)) = Some (k, v)" by simp
  from lex_literal [OF this, of acc] literal.IH [OF 1 literal.prems(2)]
  show ?case by simp
next
  case (mismatch d s acc)
  then show ?case by (simp add: lex_mismatch)
qed

lemma literal_match_digit:
  assumes "d \<in> set ''12345''"
  shows "literal_match (d # s) = Some (''SIZE'', [d])"
proof -
  from assms have "d = CHR ''1'' \<or> d = CHR ''2'' \<or> d = CHR ''3'' \<or> d = CHR ''4'' \<or> d = CHR ''5''"
    by simp
  then show ?thesis
    by (elim disjE) (simp_all add: literal_match_def token_specification_def)
qed

lemma lex_loop_digits:
  "set ds \<subseteq> set ''12345'' \<Longrightarrow>
   lex_loop ds acc = Inr (acc @ map (\<lambda>d. Token ''SIZE'' [d]) ds)"
proof (induction ds arbitrary: acc)
  case Nil
  show ?case by (simp add: lex_Nil)
next
  case (Cons d ds)
  from Cons.prems have d: "d \<in> set ''12345''" and ds: "set ds \<subseteq> set ''12345''"
    by simp_all
  from literal_match_digit [OF d, of ds] have "literal_match ([d] @ ds) = Some (''SIZE'', [d])"
    by simp
  from lex_literal [OF this, of acc] Cons.IH [OF ds, of "acc @ [Token ''SIZE'' [d]]"]
  show ?case by simp
qed

lemma other_digit_fresh: "d \<in> set ''06789'' \<Longrightarrow> d \<notin> set pattern_chars"
proof -
  assume "d \<in> set ''06789''"
  then have "d = CHR ''0'' \<or> d = CHR ''6'' \<or> d = CHR ''7'' \<or> d = CHR ''8'' \<or> d = CHR ''9''"
    by simp
  then show ?thesis
    by (elim disjE) (simp_all add: pattern_chars_def literals_def)
qed













text \<open>
  The validator itself tests only the kinds of the \<^verbatim>\<open>SIZE\<close> and \<^verbatim>\<open>COLOR\<close> tokens:
  with texts the lexer never produces, a sequence is accepted all the same.
\<close>

lemma validate_does_not_check_values:
  "validate [Token ''KEYWORDS'' ''START'', Token ''FIGURE'' ''addCircle'',
          Token ''SPECIALCHAR'' ''('', Token ''SIZE'' ''9'', Token ''COLOR'' ''GREEN'',
          Token ''SPECIALCHAR'' '')'', Token ''KEYWORDS'' ''END''] =
     Inr \<lparr>tokens = [Token ''KEYWORDS'' ''START'', Token ''FIGURE'' ''addCircle'',
          Token ''SPECIALCHAR'' ''('', Token ''SIZE'' ''9'', Token ''COLOR'' ''GREEN'',
          Token ''SPECIALCHAR'' '')'', Token ''KEYWORDS'' ''END''],
        current_token = None, pos = 7, printed = [''Figure: addCircle(9 GREEN)'']\<rparr> \<and>
   analyze [Token ''KEYWORDS'' ''START'', Token ''FIGURE'' ''addCircle'',
          Token ''SPECIALCHAR'' ''('', Token ''SIZE'' ''9'', Token ''COLOR'' ''GREEN'',
          Token ''SPECIALCHAR'' '')'', Token ''KEYWORDS'' ''END''] =
     Inr [(''addCircle'', Some ''9'', Some ''GREEN'')]"
  by code_simp

section \<open>The claims\<close>

text \<open>
  Claim C1. The claim: a \<^verbatim>\<open>SIZE\<close> token sets the size of the last tuple and leaves its
  color as it is, and a field that has been set is never changed again. The
  \<^verbatim>\<open>SIZE\<close> branch of \<^verbatim>\<open>analyze\<close> writes \<^verbatim>\<open>None\<close> into the color field: on the tokens
  \<^verbatim>\<open>FIGURE(addCircle) COLOR(RED) SIZE(3)\<close> the color \<^verbatim>\<open>RED\<close>, which had been set, is
  unset again, and the loop returns \<^verbatim>\<open>[("addCircle", "3", None)]\<close>.
\<close>

theorem C1_size_token_resets_color:
  "analyze_traced [Token ''FIGURE'' ''addCircle'', Token ''COLOR'' ''RED'', Token ''SIZE'' ''3'']
     = Inr ([(''addCircle'', Some ''3'', None)], [FigureAppended, ColorSet, SizeSet])
   \<and> analyze [Token ''FIGURE'' ''addCircle'', Token ''COLOR'' ''RED'', Token ''SIZE'' ''3'']
     = Inr [(''addCircle'', Some ''3'', None)]"
  by code_simp

text \<open>
  Claim C2. The claim: the validator fails with a \<^verbatim>\<open>SyntaxError\<close> only, also on the
  empty token sequence. On the empty sequence \<^verbatim>\<open>start\<close> reads the attribute
  \<^verbatim>\<open>type_\<close> of \<^verbatim>\<open>None\<close>: the exception that escapes is an \<^verbatim>\<open>AttributeError\<close>, and
  the empty program text reaches it through the compiler.
\<close>

theorem C2_empty_sequence_attribute_error:
  "validate [] = Inl (none_has_no_attribute ''type_'')
   \<and> compile [] = ([Lexical, Syntactic], Inl (none_has_no_attribute ''type_''))"
proof -
  have l: "lex [] = Inr []" by (simp add: lex_def lex_loop.simps)
  show ?thesis by (simp add: validate_Nil compile_def l init_Nil parse_def start_def)
qed

text \<open>
  Claim C3, as amended. Every \<^verbatim>\<open>SIZE\<close> token that the lexer produces has as its
  text one of the single digits 1 to 5; a number all of whose digits are
  between 1 and 5 is split into one \<^verbatim>\<open>SIZE\<close> token for each digit; a digit
  outside 1 to 5 that follows such digits is not made a token: the lexer
  raises the error that names it.
\<close>

theorem C3_size_tokens_single_digit:
  "(lex src = Inr ts \<longrightarrow>
      (\<forall>t \<in> set ts. type_of t = ''SIZE'' \<longrightarrow>
         value_of t \<in> set [''1'', ''2'', ''3'', ''4'', ''5''])) \<and>
   (set ds \<subseteq> set ''12345'' \<longrightarrow> lex ds = Inr (map (\<lambda>d. Token ''SIZE'' [d]) ds)) \<and>
   (set ds' \<subseteq> set ''12345'' \<and> d \<in> set ''06789'' \<longrightarrow>
      lex (ds' @ d # rest) = Inl (RuntimeError (d # '' unexpected'')))"
proof (intro conjI impI ballI)
  fix t assume l: "lex src = Inr ts" and t: "t \<in> set ts" and s: "type_of t = ''SIZE''"
  from lex_tokens [OF l t] s show "value_of t \<in> set [''1'', ''2'', ''3'', ''4'', ''5'']"
    by (simp add: lexer_token_def)
next
  assume "set ds \<subseteq> set ''12345''"
  from lex_loop_digits [OF this, of "[]"] show "lex ds = Inr (map (\<lambda>d. Token ''SIZE'' [d]) ds)"
    by (simp add: lex_def)
next
  assume a: "set ds' \<subseteq> set ''12345'' \<and> d \<in> set ''06789''"
  then have 1: "set ds' \<subseteq> set ''12345''" and 2: "d \<in> set ''06789''" by simp_all
  from lex_loop_fresh_named [OF lex_loop_digits [OF 1, of "[]"] other_digit_fresh [OF 2], of rest]
  show "lex (ds' @ d # rest) = Inl (RuntimeError (d # '' unexpected''))"
    by (simp add: lex_def unexpected_def)
qed

theorem C3_size_tokens_single_digit_witness:
  "lex ''12'' = Inr [Token ''SIZE'' ''1'', Token ''SIZE'' ''2''] \<and>
   Token ''SIZE'' ''1'' \<in> set [Token ''SIZE'' ''1'', Token ''SIZE'' ''2''] \<and>
   type_of (Token ''SIZE'' ''1'') = ''SIZE'' \<and>
   value_of (Token ''SIZE'' ''1'') \<in> set [''1'', ''2'', ''3'', ''4'', ''5''] \<and>
   set ''12'' \<subseteq> set ''12345'' \<and>
   lex ''12'' = Inr (map (\<lambda>d. Token ''SIZE'' [d]) ''12'') \<and>
   set ''1'' \<subseteq> set ''12345'' \<and> CHR ''6'' \<in> set ''06789'' \<and>
   lex (''1'' @ CHR ''6'' # []) = Inl (RuntimeError (CHR ''6'' # '' unexpected''))"
proof -
  have a: "lex ''12'' = Inr [Token ''SIZE'' ''1'', Token ''SIZE'' ''2'']" by code_simp
  have m: "Token ''SIZE'' ''1'' \<in> set [Token ''SIZE'' ''1'', Token ''SIZE'' ''2'']" by simp
  have k: "type_of (Token ''SIZE'' ''1'') = ''SIZE''" by simp
  have b: "set ''12'' \<subseteq> set ''12345''" by simp
  have c1: "set ''1'' \<subseteq> set ''12345''" by simp
  have c2: "CHR ''6'' \<in> set ''06789''" by simp
  note t = C3_size_tokens_single_digit
         [of "''12''" "[Token ''SIZE'' ''1'', Token ''SIZE'' ''2'']" "''12''" "''1''" "CHR ''6''" "[]"]
  note p1 = t [THEN conjunct1, THEN mp, OF a, THEN bspec, OF m, THEN mp, OF k]
  note p2 = t [THEN conjunct2, THEN conjunct1, THEN mp, OF b]
  note p3 = t [THEN conjunct2, THEN conjunct2, THEN mp, OF conjI [OF c1 c2]]
  from a m k p1 b p2 c1 c2 p3 show ?thesis by (intro conjI)
qed

text \<open>The claim as it was stated fails at a concrete input.\<close>

theorem C3_counterexample:
  "lex ''6'' = Inl (RuntimeError ''6 unexpected'')"
  by code_simp

text \<open>
  Claim C4. \<^verbatim>\<open>analyze\<close> returns a list of figures for every token sequence (no
  exception is raised); and for every token sequence that the validator
  accepts, neither of the branches that ignore a \<^verbatim>\<open>SIZE\<close> or a \<^verbatim>\<open>COLOR\<close> token is
  taken during the run.
\<close>

theorem C4_reducer_total_no_ignore:
  "(\<exists>fs. analyze ts = Inr fs) \<and>
   (\<forall>p. validate ts = Inr p \<longrightarrow>
      (\<exists>fs tr. analyze_traced ts = Inr (fs, tr) \<and>
         SizeIgnored \<notin> set tr \<and> ColorIgnored \<notin> set tr))"
proof
  from analyze_list_total [of ts "([], [])"] show "\<exists>fs. analyze ts = Inr fs"
    by (auto simp: analyze_def analyze_traced_list)
next
  show "\<forall>p. validate ts = Inr p \<longrightarrow>
      (\<exists>fs tr. analyze_traced ts = Inr (fs, tr) \<and>
         SizeIgnored \<notin> set tr \<and> ColorIgnored \<notin> set tr)"
  proof (intro allI impI)
    fix p assume "validate ts = Inr p"
    from validate_Inr [OF this] obtain cs where "ts = Program cs" by blast
    with analyze_traced_Program [of cs] no_ignore_branches [of cs] show
      "\<exists>fs tr. analyze_traced ts = Inr (fs, tr) \<and>
         SizeIgnored \<notin> set tr \<and> ColorIgnored \<notin> set tr" by blast
  qed
qed

theorem C4_reducer_total_no_ignore_witness:
  "validate [Token ''KEYWORDS'' ''START'', Token ''FIGURE'' ''addCircle'',
      Token ''SPECIALCHAR'' ''('', Token ''SIZE'' ''3'',
      Token ''COLOR'' ''RED'', Token ''SPECIALCHAR'' '')'', Token ''KEYWORDS'' ''END'']
   = Inr \<lparr>tokens = [Token ''KEYWORDS'' ''START'', Token ''FIGURE'' ''addCircle'',
      Token ''SPECIALCHAR'' ''('', Token ''SIZE'' ''3'',
      Token ''COLOR'' ''RED'', Token ''SPECIALCHAR'' '')'', Token ''KEYWORDS'' ''END''],
     current_token = None, pos = 7, printed = [''Figure: addCircle(3 RED)'']\<rparr>
   \<and> (\<exists>fs tr. analyze_traced [Token ''KEYWORDS'' ''START'', Token ''FIGURE'' ''addCircle'',
      Token ''SPECIALCHAR'' ''('', Token ''SIZE'' ''3'',
      Token ''COLOR'' ''RED'', Token ''SPECIALCHAR'' '')'', Token ''KEYWORDS'' ''END''] = Inr (fs, tr) \<and>
         SizeIgnored \<notin> set tr \<and> ColorIgnored \<notin> set tr)"
proof -
  have h: "validate [Token ''KEYWORDS'' ''START'', Token ''FIGURE'' ''addCircle'',
      Token ''SPECIALCHAR'' ''('', Token ''SIZE'' ''3'',
      Token ''COLOR'' ''RED'', Token ''SPECIALCHAR'' '')'', Token ''KEYWORDS'' ''END'']
   = Inr \<lparr>tokens = [Token ''KEYWORDS'' ''START'', Token ''FIGURE'' ''addCircle'',
      Token ''SPECIALCHAR'' ''('', Token ''SIZE'' ''3'',
      Token ''COLOR'' ''RED'', Token ''SPECIALCHAR'' '')'', Token ''KEYWORDS'' ''END''],
     current_token = None, pos = 7, printed = [''Figure: addCircle(3 RED)'']\<rparr>"
    by code_simp
  from C4_reducer_total_no_ignore [of "[Token ''KEYWORDS'' ''START'', Token ''FIGURE'' ''addCircle'',
      Token ''SPECIALCHAR'' ''('', Token ''SIZE'' ''3'',
      Token ''COLOR'' ''RED'', Token ''SPECIALCHAR'' '')'', Token ''KEYWORDS'' ''END'']"] h
  show ?thesis by blast
qed

text \<open>
  Claim C5. For every program of the grammar (\<^verbatim>\<open>START\<close>, any number of figure
  clauses, \<^verbatim>\<open>END\<close>) the validator succeeds, and \<^verbatim>\<open>analyze\<close> returns one tuple for
  each \<^verbatim>\<open>FIGURE\<close> token, with the names of the \<^verbatim>\<open>FIGURE\<close> tokens in their order.
\<close>

theorem C5_valid_program_accepted_and_reduced:
  "(\<exists>p. validate (Program cs) = Inr p) \<and>
   (\<exists>fs. analyze (Program cs) = Inr fs \<and>
      length fs = length (filter (\<lambda>t. type_of t = ''FIGURE'') (Program cs)) \<and>
      map fst fs = map value_of (filter (\<lambda>t. type_of t = ''FIGURE'') (Program cs)) \<and>
      fs = map filled cs)"
  by (simp add: validate_Program analyze_Program filter_FIGURE_Program filled_def comp_def)



text \<open>
  Claim C7. A program of the grammar followed by further tokens is rejected
  with the error "No extra tokens expected after END" naming the first of
  them; \<^verbatim>\<open>end\<close> raises that error whenever it has matched \<^verbatim>\<open>END\<close> and a token is
  left; and on every sequence the validator accepts, the position is the
  length of the sequence and there is no current token.
\<close>

theorem C7_trailing_tokens_rejected:
  "(extra \<noteq> [] \<longrightarrow>
      validate (Program cs @ extra) =
        Inl (SyntaxError (''Syntax error: expected No extra tokens expected after END, found ''
                          @ repr_token (hd extra)))) \<and>
   (is_kind_value (current_token p) ''KEYWORDS'' ''END'' \<and> advance p = Inr p' \<and>
      current_token p' = Some t \<longrightarrow>
      end' p =
        Inl (SyntaxError (''Syntax error: expected No extra tokens expected after END, found ''
                          @ repr_token t))) \<and>
   (validate ts = Inr q \<longrightarrow>
      tokens q = ts \<and> pos q = int (length ts) \<and> current_token q = None)"
proof (intro conjI impI)
  assume "extra \<noteq> []"
  then show "validate (Program cs @ extra) =
        Inl (SyntaxError (''Syntax error: expected No extra tokens expected after END, found ''
                          @ repr_token (hd extra)))"
    by (rule validate_trailing)
next
  assume "is_kind_value (current_token p) ''KEYWORDS'' ''END'' \<and> advance p = Inr p' \<and>
      current_token p' = Some t"
  then show "end' p =
        Inl (SyntaxError (''Syntax error: expected No extra tokens expected after END, found ''
                          @ repr_token t))"
    by (simp add: end'_def error_def)
next
  assume "validate ts = Inr q"
  from validate_Inr [OF this] have q: "q = parser_at ts [] (printed q)"
    by (auto simp: parser_at_def)
  show "tokens q = ts" by (subst q) (simp add: parser_at_def)
  show "pos q = int (length ts)" by (subst q) (simp add: parser_at_def)
  show "current_token q = None" by (subst q) (simp add: parser_at_def)
qed

theorem C7_trailing_tokens_rejected_witness:
  "[Token ''COLOR'' ''BLUE''] \<noteq> [] \<and>
   validate (Program [] @ [Token ''COLOR'' ''BLUE'']) =
     Inl (SyntaxError ''Syntax error: expected No extra tokens expected after END, found Token(COLOR, BLUE)'') \<and>
   is_kind_value (current_token
      \<lparr>tokens = [Token ''KEYWORDS'' ''END'', Token ''COLOR'' ''BLUE''],
       current_token = Some (Token ''KEYWORDS'' ''END''), pos = 0, printed = []\<rparr>)
      ''KEYWORDS'' ''END'' \<and>
   advance \<lparr>tokens = [Token ''KEYWORDS'' ''END'', Token ''COLOR'' ''BLUE''],
       current_token = Some (Token ''KEYWORDS'' ''END''), pos = 0, printed = []\<rparr>
     = Inr \<lparr>tokens = [Token ''KEYWORDS'' ''END'', Token ''COLOR'' ''BLUE''],
       current_token = Some (Token ''COLOR'' ''BLUE''), pos = 1, printed = []\<rparr> \<and>
   end' \<lparr>tokens = [Token ''KEYWORDS'' ''END'', Token ''COLOR'' ''BLUE''],
       current_token = Some (Token ''KEYWORDS'' ''END''), pos = 0, printed = []\<rparr>
     = Inl (SyntaxError ''Syntax error: expected No extra tokens expected after END, found Token(COLOR, BLUE)'') \<and>
   validate [Token ''KEYWORDS'' ''START'', Token ''KEYWORDS'' ''END'']
     = Inr \<lparr>tokens = [Token ''KEYWORDS'' ''START'', Token ''KEYWORDS'' ''END''],
            current_token = None, pos = 2, printed = []\<rparr> \<and>
   pos \<lparr>tokens = [Token ''KEYWORDS'' ''START'', Token ''KEYWORDS'' ''END''],
            current_token = None, pos = 2, printed = []\<rparr>
     = int (length [Token ''KEYWORDS'' ''START'', Token ''KEYWORDS'' ''END''])"
proof -
  have k: "is_kind_value (current_token
      \<lparr>tokens = [Token ''KEYWORDS'' ''END'', Token ''COLOR'' ''BLUE''],
       current_token = Some (Token ''KEYWORDS'' ''END''), pos = 0, printed = []\<rparr>)
      ''KEYWORDS'' ''END''"
    by (simp add: is_kind_value_def)
  have a: "advance \<lparr>tokens = [Token ''KEYWORDS'' ''END'', Token ''COLOR'' ''BLUE''],
       current_token = Some (Token ''KEYWORDS'' ''END''), pos = 0, printed = []\<rparr>
     = Inr \<lparr>tokens = [Token ''KEYWORDS'' ''END'', Token ''COLOR'' ''BLUE''],
       current_token = Some (Token ''COLOR'' ''BLUE''), pos = 1, printed = []\<rparr>"
    by (simp add: advance_def py_index_def Let_def)
  have v: "validate [Token ''KEYWORDS'' ''START'', Token ''KEYWORDS'' ''END'']
     = Inr \<lparr>tokens = [Token ''KEYWORDS'' ''START'', Token ''KEYWORDS'' ''END''],
            current_token = None, pos = 2, printed = []\<rparr>"
    by code_simp
  have r: "repr_token (Token ''COLOR'' ''BLUE'') = ''Token(COLOR, BLUE)''"
    by (simp add: repr_token_def)
  from C7_trailing_tokens_rejected
    [of "[Token ''COLOR'' ''BLUE'']" "[]"
        "\<lparr>tokens = [Token ''KEYWORDS'' ''END'', Token ''COLOR'' ''BLUE''],
          current_token = Some (Token ''KEYWORDS'' ''END''), pos = 0, printed = []\<rparr>"
        "\<lparr>tokens = [Token ''KEYWORDS'' ''END'', Token ''COLOR'' ''BLUE''],
          current_token = Some (Token ''COLOR'' ''BLUE''), pos = 1, printed = []\<rparr>"
        "Token ''COLOR'' ''BLUE''"
        "[Token ''KEYWORDS'' ''START'', Token ''KEYWORDS'' ''END'']"
        "\<lparr>tokens = [Token ''KEYWORDS'' ''START'', Token ''KEYWORDS'' ''END''],
            current_token = None, pos = 2, printed = []\<rparr>"]
    k a v r
  show ?thesis by simp
qed

text \<open>
  Claim C8. The text \<^verbatim>\<open>START END\<close> is tokenized to the two keywords, the
  validator accepts them, and \<^verbatim>\<open>analyze\<close> returns the empty list.
\<close>

theorem C8_start_end:
  "lex ''START END'' = Inr [Token ''KEYWORDS'' ''START'', Token ''KEYWORDS'' ''END''] \<and>
   validate [Token ''KEYWORDS'' ''START'', Token ''KEYWORDS'' ''END'']
     = Inr \<lparr>tokens = [Token ''KEYWORDS'' ''START'', Token ''KEYWORDS'' ''END''],
            current_token = None, pos = 2, printed = []\<rparr> \<and>
   analyze [Token ''KEYWORDS'' ''START'', Token ''KEYWORDS'' ''END''] = Inr [] \<and>
   compile ''START END'' = ([Lexical, Syntactic, Semantic], Inr [])"
proof -
  have l: "lex ''START END'' = Inr [Token ''KEYWORDS'' ''START'', Token ''KEYWORDS'' ''END'']"
    by code_simp
  have v: "validate [Token ''KEYWORDS'' ''START'', Token ''KEYWORDS'' ''END'']
     = Inr \<lparr>tokens = [Token ''KEYWORDS'' ''START'', Token ''KEYWORDS'' ''END''],
            current_token = None, pos = 2, printed = []\<rparr>"
    by code_simp
  have a: "analyze [Token ''KEYWORDS'' ''START'', Token ''KEYWORDS'' ''END''] = Inr []"
    by code_simp
  have c: "compile ''START END'' = ([Lexical, Syntactic, Semantic], Inr [])"
    by code_simp
  from l v a c show ?thesis by simp
qed

text \<open>
  Claim C9. Replacing every newline of a text by a space does not change the
  result of the lexer; no token that the lexer produces contains a newline;
  and the character named by an error of the lexer is never a newline.
\<close>

theorem C9_newlines_skipped:
  "lex (newline_to_space src) = lex src \<and>
   (\<forall>ts. lex src = Inr ts \<longrightarrow> (\<forall>t \<in> set ts. CHR 0x0A \<notin> set (value_of t))) \<and>
   (\<forall>e. lex src = Inl e \<longrightarrow>
      (\<exists>c. c \<in> set src \<and> c \<noteq> CHR 0x0A \<and> e = RuntimeError (c # '' unexpected'')))"
proof (intro conjI allI impI ballI)
  show "lex (newline_to_space src) = lex src"
    by (simp add: lex_def lex_loop_newline_to_space)
next
  fix ts t assume "lex src = Inr ts" "t \<in> set ts"
  then have "lexer_token t" by (rule lex_tokens)
  then have "lexer_token (Token (type_of t) (value_of t))" by simp
  from lexer_token_facts(4) [OF this] show "CHR 0x0A \<notin> set (value_of t)" .
next
  fix e assume "lex src = Inl e"
  then have "lex_loop src [] = Inl e" by (simp add: lex_def)
  from lex_loop_error [OF this]
  show "\<exists>c. c \<in> set src \<and> c \<noteq> CHR 0x0A \<and> e = RuntimeError (c # '' unexpected'')"
    by (simp add: unexpected_def)
qed

theorem C9_newlines_skipped_witness:
  "lex (''START'' @ CHR 0x0A # ''END'') =
     Inr [Token ''KEYWORDS'' ''START'', Token ''KEYWORDS'' ''END''] \<and>
   lex (newline_to_space (''START'' @ CHR 0x0A # ''END'')) = lex (''START'' @ CHR 0x0A # ''END'') \<and>
   CHR 0x0A \<notin> set (value_of (Token ''KEYWORDS'' ''START'')) \<and>
   lex ''#'' = Inl (RuntimeError ''# unexpected'') \<and>
   (\<exists>c. c \<in> set ''#'' \<and> c \<noteq> CHR 0x0A \<and>
      RuntimeError ''# unexpected'' = RuntimeError (c # '' unexpected''))"
proof -
  have a: "lex (''START'' @ CHR 0x0A # ''END'') =
     Inr [Token ''KEYWORDS'' ''START'', Token ''KEYWORDS'' ''END'']" by code_simp
  have b: "lex ''#'' = Inl (RuntimeError ''# unexpected'')" by code_simp
  have m: "Token ''KEYWORDS'' ''START'' \<in> set [Token ''KEYWORDS'' ''START'', Token ''KEYWORDS'' ''END'']"
    by simp
  note t = C9_newlines_skipped [of "''START'' @ CHR 0x0A # ''END''"]
  note u = C9_newlines_skipped [of "''#''"]
  note p1 = t [THEN conjunct1]
  note p2 = t [THEN conjunct2, THEN conjunct1, THEN spec, THEN mp, OF a, THEN bspec, OF m]
  note p3 = u [THEN conjunct2, THEN conjunct2, THEN spec, THEN mp, OF b]
  from a p1 p2 b p3 show ?thesis by (intro conjI)
qed



end
